theory Spec2Isabelle
  imports Main "HOL-Library.Word" "HOL-Library.Multiset"
begin

section \<open>The object pool of Memory.cc\<close>

text \<open>
  \<^verbatim>\<open>ObjectPool<T, Allocator>\<close> hands out objects of one type \<open>T\<close> from chunks of raw storage
  that it obtains from an allocator, and takes the storage back through the deleter of the
  \<^verbatim>\<open>std::shared_ptr\<close> it returns.

  \<^item> A \<^verbatim>\<open>T*\<close> is a byte address, a \<open>nat\<close>; \<open>sz\<close> is \<^verbatim>\<open>sizeof(T)\<close>, the stride of pointer
    arithmetic on a \<^verbatim>\<open>T*\<close>. It is a parameter of every function that steps a pointer.
  \<^item> \<^verbatim>\<open>size_t\<close> is a 64-bit word: \<^verbatim>\<open>m_newChunkSize *= 2\<close> wraps around.
  \<^item> The two \<^verbatim>\<open>std::vector<T*>\<close> members are lists. Their own storage is taken to be always
    available: only the two failures of \<^verbatim>\<open>acquireObject\<close> that concern \<open>T\<close> are modelled,
    the allocator's \<^verbatim>\<open>allocate\<close> throwing and the constructor of \<open>T\<close> throwing.
  \<^item> The allocator and the constructor of \<open>T\<close> are template parameters. What the allocator
    answers when asked for a chunk is an input of the operation (\<open>None\<close>: it throws
    \<^verbatim>\<open>std::bad_alloc\<close>; \<open>Some first\<close>: it returns the address \<open>first\<close>). The constructor is
    a function \<open>ctor\<close> from the arguments to the constructed value (\<open>None\<close>: it throws).
  \<^item> The line written to \<^verbatim>\<open>std::cout\<close> by \<^verbatim>\<open>addChunk\<close> is not part of the pool and is left out.
\<close>

type_synonym ptr = nat
type_synonym size_t = "64 word"

datatype error = BadAlloc | CtorThrew | UndefinedBehaviour | AssertionFailed

text \<open>The data members of the class (lines 34 to 43), the allocator apart.\<close>

record ObjectPool =
  m_pool :: "ptr list"
  m_freeObjects :: "ptr list"
  m_newChunkSize :: size_t

text \<open>
  The world the pool lives in: the pool, the allocator's ledger of the blocks it has handed
  out and not got back (first address and number of elements, in allocation order), the
  objects of type \<open>T\<close> that are constructed at an address, and the addresses held by the
  handles (\<^verbatim>\<open>shared_ptr\<close>s with the pool's deleter) that are alive, in the order of issue.
\<close>

record 'v world =
  pool :: ObjectPool
  blocks :: "(ptr \<times> nat) list"
  mem :: "ptr \<rightharpoonup> 'v"
  live :: "ptr list"

definition ms_initialChunkSize :: size_t where
  "ms_initialChunkSize = 5"

text \<open>\<^verbatim>\<open>ObjectPool() = default\<close> with the member initialiser of line 39.\<close>

definition ObjectPool_default :: ObjectPool where
  "ObjectPool_default =
     \<lparr>m_pool = [], m_freeObjects = [], m_newChunkSize = ms_initialChunkSize\<rparr>"

definition init :: "'v world" where
  "init = \<lparr>pool = ObjectPool_default, blocks = [], mem = Map.empty, live = []\<rparr>"

text \<open>
  \<^verbatim>\<open>std::iota\<close> over \<open>n\<close> cells of \<^verbatim>\<open>T*\<close>: the pointer \<open>first\<close>, incremented from cell to
  cell, that is, advanced by \<open>sz\<close> bytes.
\<close>

definition iota :: "nat \<Rightarrow> ptr \<Rightarrow> nat \<Rightarrow> ptr list" where
  "iota sz first n = map (\<lambda>i. first + i * sz) [0..<n]"

text \<open>
  \<^verbatim>\<open>addChunk\<close> (lines 53 to 70). \<^verbatim>\<open>allocate\<close> is the first thing that can fail, and nothing
  has been written before it. \<^verbatim>\<open>resize\<close> followed by \<^verbatim>\<open>iota\<close> on the new cells appends
  the addresses of the new chunk's slots to the free list.
\<close>

definition addChunk :: "nat \<Rightarrow> ptr option \<Rightarrow> 'v world \<Rightarrow> error + 'v world" where
  "addChunk sz answer w =
     (case answer of
        None \<Rightarrow> Inl BadAlloc
      | Some firstNewObject \<Rightarrow>
          let p = pool w; n = unat (m_newChunkSize p) in
          Inr (w\<lparr>blocks := blocks w @ [(firstNewObject, n)],
                 pool := p\<lparr>m_pool := m_pool p @ [firstNewObject],
                            m_freeObjects := m_freeObjects p @ iota sz firstNewObject n,
                            m_newChunkSize := m_newChunkSize p * 2\<rparr>\<rparr>))"

text \<open>
  \<^verbatim>\<open>acquireObject\<close> (lines 72 to 96). The result is what the caller sees (an exception or the
  address the handle holds) and the world the call leaves behind. \<^verbatim>\<open>back()\<close> on an empty
  vector is undefined behaviour; it is reached only when a chunk of zero slots was added.
  A constructor that throws leaves the function before \<^verbatim>\<open>pop_back\<close>.
\<close>

definition acquireObject ::
  "nat \<Rightarrow> ('a \<Rightarrow> 'v option) \<Rightarrow> ptr option \<Rightarrow> 'a \<Rightarrow> 'v world \<Rightarrow> (error + ptr) \<times> 'v world" where
  "acquireObject sz ctor answer args w =
     (case (if m_freeObjects (pool w) = [] then addChunk sz answer w else Inr w) of
        Inl e \<Rightarrow> (Inl e, w)
      | Inr w1 \<Rightarrow>
          if m_freeObjects (pool w1) = [] then (Inl UndefinedBehaviour, w1)
          else
            let object = last (m_freeObjects (pool w1)) in
            (case ctor args of
               None \<Rightarrow> (Inl CtorThrew, w1)
             | Some v \<Rightarrow>
                 (Inr object,
                  w1\<lparr>mem := (mem w1)(object \<mapsto> v),
                     pool := (pool w1)\<lparr>m_freeObjects := butlast (m_freeObjects (pool w1))\<rparr>,
                     live := live w1 @ [object]\<rparr>)))"

text \<open>The deleter of the returned \<^verbatim>\<open>shared_ptr\<close> (lines 90 to 95).\<close>

definition deleter :: "ptr \<Rightarrow> 'v world \<Rightarrow> 'v world" where
  "deleter object w =
     w\<lparr>mem := (mem w)(object := None),
       pool := (pool w)\<lparr>m_freeObjects := m_freeObjects (pool w) @ [object]\<rparr>\<rparr>"

text \<open>
  The last owner of the handle that holds \<open>object\<close> lets go of it: \<^verbatim>\<open>shared_ptr\<close> runs the
  deleter, once. Only a handle that is alive can be released.
\<close>

definition release :: "ptr \<Rightarrow> 'v world \<Rightarrow> 'v world" where
  "release object w =
     (if object \<in> set (live w) then deleter object (w\<lparr>live := remove1 object (live w)\<rparr>)
      else w)"

text \<open>
  The destructor (lines 98 to 110).

  The assertion of line 100 is evaluated in \<^verbatim>\<open>double\<close>: \<^verbatim>\<open>std::pow\<close> returns a \<^verbatim>\<open>double\<close>, and
  both sizes are converted to it. All the values are natural numbers, \<open>2 ^ n\<close> is a
  \<^verbatim>\<open>double\<close>, and every other operation yields the \<^verbatim>\<open>double\<close> nearest to the exact result,
  ties going to the even significand of 53 bits (\<open>to_double\<close>; the numbers are taken to be
  below \<open>2 ^ 1024\<close>). The assertion is compiled out when \<^verbatim>\<open>NDEBUG\<close> is defined: the build is
  the first parameter of the destructor.
\<close>

fun bitlen :: "nat \<Rightarrow> nat" where
  "bitlen n = (if n = 0 then 0 else Suc (bitlen (n div 2)))"

declare bitlen.simps [simp del]

definition to_double :: "nat \<Rightarrow> nat" where
  "to_double x =
     (if x < 2 ^ 53 then x
      else
        let e = bitlen x - 53; q = x div 2 ^ e; r = x mod 2 ^ e in
        if 2 ^ e < 2 * r \<or> (2 * r = 2 ^ e \<and> odd q) then (q + 1) * 2 ^ e else q * 2 ^ e)"

definition dtor_assert :: "ObjectPool \<Rightarrow> bool" where
  "dtor_assert p \<longleftrightarrow>
     to_double (length (m_freeObjects p)) =
       to_double (to_double (unat ms_initialChunkSize) *
                  to_double (2 ^ length (m_pool p) - 1))"

text \<open>
  The allocator, as far as the destructor meets it: its ledger of allocated blocks and the
  calls of \<^verbatim>\<open>deallocate\<close> it has received, in order. \<^verbatim>\<open>deallocate\<close> with a pointer and
  a size that are not those of an allocated block is undefined behaviour.
\<close>

type_synonym allocator = "(ptr \<times> nat) list \<times> (ptr \<times> nat) list"

definition deallocate :: "ptr \<Rightarrow> nat \<Rightarrow> allocator \<Rightarrow> error + allocator" where
  "deallocate chunk n a =
     (case a of
        (bs, calls) \<Rightarrow>
          if (chunk, n) \<in> set bs then Inr (remove1 (chunk, n) bs, calls @ [(chunk, n)])
          else Inl UndefinedBehaviour)"

text \<open>The loop of lines 102 to 107.\<close>

fun dealloc_loop :: "ptr list \<Rightarrow> size_t \<Rightarrow> allocator \<Rightarrow> error + allocator" where
  "dealloc_loop [] chunkSize a = Inr a"
| "dealloc_loop (chunk # rest) chunkSize a =
     (case deallocate chunk (unat chunkSize) a of
        Inl e \<Rightarrow> Inl e
      | Inr a' \<Rightarrow> dealloc_loop rest (chunkSize * 2) a')"

text \<open>
  The destructor, with \<open>ndebug\<close> for a build with \<^verbatim>\<open>NDEBUG\<close>. It returns the allocator as it
  leaves it: the blocks still allocated, and the calls of \<^verbatim>\<open>deallocate\<close> it has made.
\<close>

definition ObjectPool_dtor :: "bool \<Rightarrow> 'v world \<Rightarrow> error + allocator" where
  "ObjectPool_dtor ndebug w =
     (if \<not> ndebug \<and> \<not> dtor_assert (pool w) then Inl AssertionFailed
      else dealloc_loop (m_pool (pool w)) ms_initialChunkSize (blocks w, []))"

text \<open>
  The defaulted move constructor and move assignment (lines 20 and 21) move member by
  member: a moved-from \<^verbatim>\<open>std::vector\<close> is empty, a \<^verbatim>\<open>size_t\<close> is copied. The result is the
  destination and the source as the move leaves it.
\<close>

definition move_pool :: "ObjectPool \<Rightarrow> ObjectPool \<times> ObjectPool" where
  "move_pool src =
     (\<lparr>m_pool = m_pool src, m_freeObjects = m_freeObjects src,
       m_newChunkSize = m_newChunkSize src\<rparr>,
      \<lparr>m_pool = [], m_freeObjects = [], m_newChunkSize = m_newChunkSize src\<rparr>)"

subsection \<open>Sequences of operations\<close>

text \<open>
  An operation on the pool is a call of \<^verbatim>\<open>acquireObject\<close>, with the answer the allocator
  gives if it is asked and the arguments for the constructor, or the release of a handle.
  An exception is caught by the caller and the sequence goes on; after undefined behaviour
  there is no next state.
\<close>

datatype 'a op = Acquire "ptr option" 'a | Release ptr

fun exec :: "nat \<Rightarrow> ('a \<Rightarrow> 'v option) \<Rightarrow> 'v world \<Rightarrow> 'a op \<Rightarrow> 'v world option" where
  "exec sz ctor w (Acquire answer args) =
     (case acquireObject sz ctor answer args w of
        (Inl UndefinedBehaviour, _) \<Rightarrow> None
      | (_, w') \<Rightarrow> Some w')"
| "exec sz ctor w (Release object) = Some (release object w)"

text \<open>The states a sequence of operations goes through, the first one included.\<close>

fun run :: "nat \<Rightarrow> ('a \<Rightarrow> 'v option) \<Rightarrow> 'v world \<Rightarrow> 'a op list \<Rightarrow> 'v world list" where
  "run sz ctor w [] = [w]"
| "run sz ctor w (x # xs) =
     w # (case exec sz ctor w x of None \<Rightarrow> [] | Some w' \<Rightarrow> run sz ctor w' xs)"

text \<open>
  What the pool may expect of an allocator: the block it returns lies inside the address
  space and overlaps no block that is still allocated.
\<close>

definition fresh_block :: "nat \<Rightarrow> ptr \<Rightarrow> nat \<Rightarrow> (ptr \<times> nat) list \<Rightarrow> bool" where
  "fresh_block sz first n bs \<longleftrightarrow>
     first + n * sz \<le> 2 ^ 64 \<and>
     list_all (\<lambda>(b, m). first + n * sz \<le> b \<or> b + m * sz \<le> first) bs"

fun sound_op :: "nat \<Rightarrow> 'v world \<Rightarrow> 'a op \<Rightarrow> bool" where
  "sound_op sz w (Acquire (Some first) args) =
     (m_freeObjects (pool w) = [] \<longrightarrow>
        fresh_block sz first (unat (m_newChunkSize (pool w))) (blocks w))"
| "sound_op sz w _ = True"

fun sound_run :: "nat \<Rightarrow> ('a \<Rightarrow> 'v option) \<Rightarrow> 'v world \<Rightarrow> 'a op list \<Rightarrow> bool" where
  "sound_run sz ctor w [] = True"
| "sound_run sz ctor w (x # xs) =
     (sound_op sz w x \<and>
      (case exec sz ctor w x of None \<Rightarrow> True | Some w' \<Rightarrow> sound_run sz ctor w' xs))"

text \<open>
  Consecutive calls of \<^verbatim>\<open>acquireObject\<close> with no release in between, as in the loop of
  \<^verbatim>\<open>main\<close> were the handles kept: what each call returns.
\<close>

fun acquire_each ::
  "nat \<Rightarrow> ('a \<Rightarrow> 'v option) \<Rightarrow> 'v world \<Rightarrow> (ptr option \<times> 'a) list \<Rightarrow> (error + ptr) list" where
  "acquire_each sz ctor w [] = []"
| "acquire_each sz ctor w ((answer, args) # rest) =
     (case acquireObject sz ctor answer args w of
        (r, w') \<Rightarrow> r # acquire_each sz ctor w' rest)"

subsection \<open>Invariants\<close>

text \<open>Free slots and live objects together are as many as the slots of all chunks.\<close>

definition conserved :: "'v world \<Rightarrow> bool" where
  "conserved w \<longleftrightarrow>
     length (m_freeObjects (pool w)) + length (live w) = sum_list (map snd (blocks w))"

text \<open>The slot addresses of a list of blocks, and the capacities of the first \<open>n\<close> chunks.\<close>

definition slots :: "nat \<Rightarrow> (ptr \<times> nat) list \<Rightarrow> ptr list" where
  "slots sz bs = concat (map (\<lambda>(first, n). iota sz first n) bs)"

definition capacities :: "nat \<Rightarrow> nat list" where
  "capacities n = map (\<lambda>k. unat ms_initialChunkSize * 2 ^ k) [0..<n]"

text \<open>
  What holds of a pool that was default-constructed and then used through
  \<^verbatim>\<open>acquireObject\<close> and its handles, with an allocator that keeps its contract: the next
  chunk size has not wrapped around, the allocator's ledger lists the pool's chunks with
  the doubling capacities, the free slots and the live objects together are exactly the
  slots of the chunks, and these are pairwise different addresses of the address space.
\<close>

definition pool_inv :: "nat \<Rightarrow> 'v world \<Rightarrow> bool" where
  "pool_inv sz w \<longleftrightarrow>
     unat (m_newChunkSize (pool w)) = unat ms_initialChunkSize * 2 ^ length (m_pool (pool w)) \<and>
     map fst (blocks w) = m_pool (pool w) \<and>
     map snd (blocks w) = capacities (length (m_pool (pool w))) \<and>
     mset (m_freeObjects (pool w) @ live w) = mset (slots sz (blocks w)) \<and>
     distinct (slots sz (blocks w)) \<and>
     list_all (\<lambda>a. a < 2 ^ 64) (slots sz (blocks w))"

subsection \<open>Passing the arguments\<close>

text \<open>
  The parameter pack of \<^verbatim>\<open>acquireObject\<close> is declared \<^verbatim>\<open>Args... args\<close> (lines 30 and 74),
  not \<^verbatim>\<open>Args&&... args\<close>: every parameter is an object of its own, initialised from the
  caller's argument. From an lvalue that is the copy constructor of the argument's type,
  from an xvalue its move constructor; a prvalue initialises the parameter directly.
  \<^verbatim>\<open>std::forward<Args>(args)\<close> with \<open>Args\<close> not a reference is an xvalue, so the constructor
  of \<open>T\<close> is handed the parameters, not the caller's objects. The call returns the copy and
  move constructions made before the body runs, and what the body returns.
\<close>

datatype category = Lvalue | Xvalue | Prvalue

datatype 'a arg_event = CopyConstructed 'a | MoveConstructed 'a

fun init_parameter :: "category \<times> 'a \<Rightarrow> 'a arg_event list" where
  "init_parameter (Lvalue, x) = [CopyConstructed x]"
| "init_parameter (Xvalue, x) = [MoveConstructed x]"
| "init_parameter (Prvalue, x) = []"

definition acquireObject_call ::
  "nat \<Rightarrow> ('a list \<Rightarrow> 'v option) \<Rightarrow> ptr option \<Rightarrow> (category \<times> 'a) list \<Rightarrow> 'v world \<Rightarrow>
     'a arg_event list \<times> (error + ptr) \<times> 'v world" where
  "acquireObject_call sz ctor answer actuals w =
     (concat (map init_parameter actuals), acquireObject sz ctor answer (map snd actuals) w)"

subsection \<open>Sample runs\<close>

text \<open>
  A pool of objects of eight bytes that hold a string. Five objects fill the first chunk
  at address 4096, the sixth makes the pool grow by a chunk of ten slots at address 8192,
  then the handle of the fifth object is released.
\<close>

definition demo_ops :: "string op list" where
  "demo_ops =
     [Acquire (Some 4096) ''a'', Acquire None ''b'', Acquire None ''c'', Acquire None ''d'',
      Acquire None ''e'', Acquire (Some 8192) ''f'', Release 4096]"

definition demo_final :: "string world" where
  "demo_final = last (run 8 Some init demo_ops)"

text \<open>One object is acquired and its handle released.\<close>

definition cycle_ops :: "string op list" where
  "cycle_ops = [Acquire (Some 4096) ''a'', Release 4128]"

definition cycled :: "string world" where
  "cycled = last (run 8 Some init cycle_ops)"

text \<open>
  The pool of \<open>cycled\<close> is moved from, and the moved-from pool is used again: one object
  is acquired from it, in a chunk at address 8192, and its handle released.
\<close>

definition reused :: "string world" where
  "reused =
     release 8264
       (snd (acquireObject 8 Some (Some 8192) ''b''
          (cycled\<lparr>pool := snd (move_pool (pool cycled))\<rparr>)))"

text \<open>A type \<open>T\<close> with a constructor from an \<^verbatim>\<open>int\<close> and a \<^verbatim>\<open>std::string\<close>.\<close>

datatype arg = IntArg int | StrArg string

fun pair_ctor :: "arg list \<Rightarrow> (int \<times> string) option" where
  "pair_ctor [IntArg i, StrArg s] = Some (i, s)"
| "pair_ctor _ = None"

text \<open>
  A constructor that throws on the empty string, and the world after a call with the empty
  string on a fresh pool: the pool has grown, and the constructor has thrown.
\<close>

definition picky_ctor :: "string \<Rightarrow> string option" where
  "picky_ctor s = (if s = [] then None else Some s)"

definition grown :: "string world" where
  "grown = snd (acquireObject 8 picky_ctor (Some 4096) [] init)"

section \<open>Basic facts\<close>

lemma length_iota [simp]: "length (iota sz first n) = n"
  by (simp add: iota_def)

lemma addChunk_Inl: "addChunk sz answer w = Inl e \<longleftrightarrow> answer = None \<and> e = BadAlloc"
  by (auto simp: addChunk_def Let_def split: option.splits)

lemma acquireObject_nonempty:
  assumes "m_freeObjects (pool w) = ys @ [y]" and "ctor args = Some v"
  shows "acquireObject sz ctor answer args w =
           (Inr y, w\<lparr>mem := (mem w)(y \<mapsto> v),
                      pool := (pool w)\<lparr>m_freeObjects := ys\<rparr>,
                      live := live w @ [y]\<rparr>)"
  using assms by (simp add: acquireObject_def Let_def)

lemma acquireObject_growth:
  assumes "m_freeObjects (pool w) = []" and "addChunk sz (Some first) w = Inr w1"
    and "m_freeObjects (pool w1) \<noteq> []"
  shows "acquireObject sz ctor (Some first) args w = acquireObject sz ctor answer args w1"
  using assms by (simp add: acquireObject_def)

lemma exec_Acquire:
  "exec sz ctor w (Acquire answer args) = Some w' \<Longrightarrow>
   w' = snd (acquireObject sz ctor answer args w)"
  by (auto split: prod.splits sum.splits error.splits)

lemma run_nonempty: "run sz ctor w xs \<noteq> []"
  by (cases xs) simp_all

lemma run_last_mem: "last (run sz ctor w xs) \<in> set (run sz ctor w xs)"
  using run_nonempty by (rule last_in_set)

lemma world_fields:
  "w = \<lparr>pool = p, blocks = b, mem = m, live = l\<rparr> \<Longrightarrow> pool w = p \<and> blocks w = b \<and> live w = l"
  by simp

text \<open>
  The object that a successful call returns is constructed at the returned address from
  the arguments of the call, by the one call of the constructor.
\<close>

lemma acquireObject_constructs:
  assumes "acquireObject sz ctor answer args w = (Inr p, w')"
  shows "\<exists>v. ctor args = Some v \<and> mem w' p = Some v \<and> live w' = live w @ [p]"
  using assms
  by (auto simp: acquireObject_def addChunk_def Let_def split: sum.splits if_splits option.splits)

text \<open>The defaulted move hands all three members to the destination.\<close>

lemma move_pool_destination: "fst (move_pool src) = src"
  by (simp add: move_pool_def)

lemma move_pool_source:
  "m_pool (snd (move_pool src)) = [] \<and> m_freeObjects (snd (move_pool src)) = [] \<and>
   m_newChunkSize (snd (move_pool src)) = m_newChunkSize src"
  by (simp add: move_pool_def)

section \<open>Capacity conservation\<close>

lemma conserved_addChunk:
  "addChunk sz answer w = Inr w1 \<Longrightarrow> conserved w \<Longrightarrow> conserved w1"
  by (auto simp: addChunk_def conserved_def Let_def split: option.splits)

lemma conserved_acquireObject:
  assumes "conserved w"
  shows "conserved (snd (acquireObject sz ctor answer args w))"
proof (cases "if m_freeObjects (pool w) = [] then addChunk sz answer w else Inr w")
  case (Inl e)
  then show ?thesis using assms by (simp add: acquireObject_def)
next
  case (Inr w1)
  then have c1: "conserved w1"
    using assms conserved_addChunk [of sz answer w w1] by (auto split: if_splits)
  show ?thesis
  proof (cases "m_freeObjects (pool w1) = []")
    case True
    then show ?thesis using Inr c1 by (simp add: acquireObject_def)
  next
    case False
    then obtain ys y where "m_freeObjects (pool w1) = ys @ [y]"
      by (metis append_butlast_last_id)
    then show ?thesis using Inr c1
      by (cases "ctor args") (simp_all add: acquireObject_def conserved_def Let_def)
  qed
qed

lemma conserved_release:
  assumes "conserved w"
  shows "conserved (release object w)"
proof (cases "object \<in> set (live w)")
  case True
  then obtain n where "length (live w) = Suc n"
    by (cases "live w") auto
  then show ?thesis using True assms
    by (simp add: release_def deleter_def conserved_def length_remove1)
next
  case False
  then show ?thesis using assms by (simp add: release_def)
qed

lemma conserved_exec:
  assumes "conserved w" and "exec sz ctor w x = Some w'"
  shows "conserved w'"
proof (cases x)
  case (Acquire answer args)
  with assms(2) have "exec sz ctor w (Acquire answer args) = Some w'"
    by simp
  then have "w' = snd (acquireObject sz ctor answer args w)"
    by (rule exec_Acquire)
  then show ?thesis using conserved_acquireObject [OF assms(1)] by simp
next
  case (Release object)
  then show ?thesis using assms conserved_release by auto
qed

lemma conserved_run:
  "conserved w \<Longrightarrow> \<forall>w' \<in> set (run sz ctor w xs). conserved w'"
proof (induction xs arbitrary: w)
  case Nil
  then show ?case by simp
next
  case (Cons x xs)
  show ?case
  proof (cases "exec sz ctor w x")
    case None
    then show ?thesis using Cons.prems by simp
  next
    case (Some w1)
    then have "conserved w1" using Cons.prems conserved_exec by blast
    then show ?thesis using Cons.IH [of w1] Cons.prems Some by simp
  qed
qed

lemma conserved_init: "conserved init"
  by (simp add: conserved_def init_def ObjectPool_default_def)

text \<open>
  Claim C1. In every state that a sequence of acquisitions and releases on a
  default-constructed pool goes through, whatever the allocator answers and whether or not
  the constructors throw, the number of addresses in the free list plus the number of live
  objects is the sum of the capacities of the chunks allocated so far.
\<close>

theorem capacity_conservation:
  "\<forall>w \<in> set (run sz ctor init xs).
     length (m_freeObjects (pool w)) + length (live w) = sum_list (map snd (blocks w))"
  using conserved_run [OF conserved_init, of sz ctor xs] by (simp add: conserved_def)

section \<open>The pool invariant\<close>

lemma slots_append [simp]: "slots sz (bs @ cs) = slots sz bs @ slots sz cs"
  by (simp add: slots_def)

lemma slots_single [simp]: "slots sz [(first, n)] = iota sz first n"
  by (simp add: slots_def)

lemma length_slots: "length (slots sz bs) = sum_list (map snd bs)"
  by (induction bs) (auto simp: slots_def)

lemma iota_bounds:
  assumes "a \<in> set (iota sz first n)" and "0 < sz"
  shows "first \<le> a \<and> a + sz \<le> first + n * sz"
proof -
  from assms(1) obtain i where i: "i < n" and a: "a = first + i * sz"
    by (auto simp: iota_def)
  from i have "Suc i \<le> n" by simp
  then have "Suc i * sz \<le> n * sz" by (rule mult_le_mono1)
  then show ?thesis using a by simp
qed

lemma distinct_iota: "0 < sz \<Longrightarrow> distinct (iota sz first n)"
  by (simp add: iota_def distinct_map inj_on_def)

lemma slots_in_block:
  "a \<in> set (slots sz bs) \<Longrightarrow> \<exists>(b, m) \<in> set bs. a \<in> set (iota sz b m)"
  by (auto simp: slots_def)

lemma fresh_block_disjoint:
  assumes "fresh_block sz first n bs" and "0 < sz"
  shows "set (slots sz bs) \<inter> set (iota sz first n) = {}"
proof (rule ccontr)
  assume "set (slots sz bs) \<inter> set (iota sz first n) \<noteq> {}"
  then obtain a where a1: "a \<in> set (slots sz bs)" and a2: "a \<in> set (iota sz first n)"
    by blast
  from a1 obtain b m where bm: "(b, m) \<in> set bs" and a3: "a \<in> set (iota sz b m)"
    using slots_in_block by fastforce
  from assms(1) bm have "first + n * sz \<le> b \<or> b + m * sz \<le> first"
    by (auto simp: fresh_block_def list_all_iff)
  moreover from iota_bounds [OF a2 assms(2)]
  have "first \<le> a" "a + sz \<le> first + n * sz" by simp_all
  moreover from iota_bounds [OF a3 assms(2)]
  have "b \<le> a" "a + sz \<le> b + m * sz" by simp_all
  ultimately show False using assms(2) by linarith
qed

lemma fresh_block_bounded:
  assumes "fresh_block sz first n bs" and "0 < sz"
  shows "list_all (\<lambda>a. a < 2 ^ 64) (iota sz first n)"
proof -
  have "a < 2 ^ 64" if "a \<in> set (iota sz first n)" for a
  proof -
    from iota_bounds [OF that assms(2)] have "a + sz \<le> first + n * sz" by simp
    moreover from assms(1) have "first + n * sz \<le> 2 ^ 64" by (simp add: fresh_block_def)
    ultimately show ?thesis using assms(2) by linarith
  qed
  then show ?thesis by (simp add: list_all_iff)
qed

text \<open>There are no more different addresses below \<open>N\<close> than \<open>N\<close>.\<close>

lemma distinct_bounded_length:
  assumes "distinct xs" and "list_all (\<lambda>a. a < N) xs"
  shows "length xs \<le> (N::nat)"
proof -
  from assms(2) have "set xs \<subseteq> {..<N}" by (auto simp: list_all_iff)
  then have "card (set xs) \<le> card {..<N}" by (intro card_mono) simp_all
  then show ?thesis using assms(1) by (simp add: distinct_card)
qed

lemma sum_capacities:
  "sum_list (capacities n) + unat ms_initialChunkSize = unat ms_initialChunkSize * 2 ^ n"
  by (induction n) (simp_all add: capacities_def algebra_simps)

lemma capacities_Suc: "capacities (Suc n) = capacities n @ [unat ms_initialChunkSize * 2 ^ n]"
  by (simp add: capacities_def)

text \<open>
  Chunks whose slots all fit into the address space are so few that the doubled size still
  fits into a \<^verbatim>\<open>size_t\<close>.
\<close>

lemma chunk_count_bound:
  assumes "unat ms_initialChunkSize * 2 ^ n \<le> 2 ^ 64 + unat ms_initialChunkSize"
  shows "unat ms_initialChunkSize * 2 ^ n < (2::nat) ^ 64"
proof -
  have "n < 62"
  proof (rule ccontr)
    assume "\<not> n < 62"
    then have "(2::nat) ^ 62 \<le> 2 ^ n" by (intro power_increasing) simp_all
    then have "5 * (2::nat) ^ 62 \<le> 5 * 2 ^ n" by simp
    then show False using assms by (simp add: ms_initialChunkSize_def)
  qed
  then have "(2::nat) ^ n \<le> 2 ^ 61" by (intro power_increasing) simp_all
  then have "5 * (2::nat) ^ n \<le> 5 * 2 ^ 61" by simp
  then show ?thesis by (simp add: ms_initialChunkSize_def)
qed

lemma pool_inv_addChunk:
  assumes inv: "pool_inv sz w" and sz: "0 < sz"
    and fresh: "fresh_block sz first (unat (m_newChunkSize (pool w))) (blocks w)"
    and add: "addChunk sz (Some first) w = Inr w1"
  shows "pool_inv sz w1"
proof -
  define n where "n = length (m_pool (pool w))"
  define c where "c = unat (m_newChunkSize (pool w))"
  have c: "c = unat ms_initialChunkSize * 2 ^ n"
    using inv by (simp add: pool_inv_def c_def n_def)
  have w1: "w1 = w\<lparr>blocks := blocks w @ [(first, c)],
                   pool := (pool w)\<lparr>m_pool := m_pool (pool w) @ [first],
                                    m_freeObjects := m_freeObjects (pool w) @ iota sz first c,
                                    m_newChunkSize := m_newChunkSize (pool w) * 2\<rparr>\<rparr>"
    using add by (simp add: addChunk_def Let_def c_def)
  have fst1: "map fst (blocks w1) = m_pool (pool w1)"
    using inv by (simp add: w1 pool_inv_def)
  have snd1: "map snd (blocks w1) = capacities (Suc n)"
    using inv c by (simp add: w1 pool_inv_def capacities_Suc n_def)
  have mset1: "mset (m_freeObjects (pool w1) @ live w1) = mset (slots sz (blocks w1))"
    using inv by (simp add: w1 pool_inv_def)
  have dist1: "distinct (slots sz (blocks w1))"
    using inv fresh_block_disjoint [OF fresh sz] distinct_iota [OF sz]
    by (simp add: w1 pool_inv_def c_def)
  have bound1: "list_all (\<lambda>a. a < 2 ^ 64) (slots sz (blocks w1))"
    using inv fresh_block_bounded [OF fresh sz] by (simp add: w1 pool_inv_def c_def)
  have "length (slots sz (blocks w1)) \<le> 2 ^ 64"
    using dist1 bound1 by (rule distinct_bounded_length)
  then have "sum_list (capacities (Suc n)) \<le> 2 ^ 64"
    by (simp add: length_slots snd1)
  then have "unat ms_initialChunkSize * 2 ^ Suc n \<le> 2 ^ 64 + unat ms_initialChunkSize"
    using sum_capacities [of "Suc n"] by linarith
  then have small: "unat ms_initialChunkSize * 2 ^ Suc n < (2::nat) ^ 64"
    by (rule chunk_count_bound)
  have "unat (m_newChunkSize (pool w) * 2) = (c * 2) mod 2 ^ 64"
    by (simp add: unat_word_ariths c_def)
  also have "c * 2 = unat ms_initialChunkSize * 2 ^ Suc n"
    by (simp add: c)
  finally have size1: "unat (m_newChunkSize (pool w1)) =
      unat ms_initialChunkSize * 2 ^ length (m_pool (pool w1))"
    using small by (simp add: w1 n_def)
  show ?thesis
    unfolding pool_inv_def
    using size1 fst1 snd1 mset1 dist1 bound1 by (simp add: w1 n_def)
qed

lemma pool_inv_pop:
  assumes inv: "pool_inv sz w" and ne: "m_freeObjects (pool w) \<noteq> []"
  shows "pool_inv sz
           (w\<lparr>mem := m,
              pool := (pool w)\<lparr>m_freeObjects := butlast (m_freeObjects (pool w))\<rparr>,
              live := live w @ [last (m_freeObjects (pool w))]\<rparr>)"
proof -
  from ne obtain ys y where ys: "m_freeObjects (pool w) = ys @ [y]"
    by (metis append_butlast_last_id)
  show ?thesis using inv by (simp add: pool_inv_def ys)
qed

lemma pool_inv_acquireObject:
  assumes inv: "pool_inv sz w" and sz: "0 < sz"
    and sound: "sound_op sz w (Acquire answer args)"
  shows "pool_inv sz (snd (acquireObject sz ctor answer args w))"
proof (cases "if m_freeObjects (pool w) = [] then addChunk sz answer w else Inr w")
  case (Inl e)
  then show ?thesis using inv by (simp add: acquireObject_def)
next
  case (Inr w1)
  have inv1: "pool_inv sz w1"
  proof (cases "m_freeObjects (pool w) = []")
    case True
    with Inr obtain first where first: "answer = Some first"
      by (cases answer) (simp_all add: addChunk_def)
    with sound True have "fresh_block sz first (unat (m_newChunkSize (pool w))) (blocks w)"
      by simp
    then show ?thesis using pool_inv_addChunk [OF inv sz] Inr True first by simp
  next
    case False
    then show ?thesis using Inr inv by simp
  qed
  show ?thesis
  proof (cases "m_freeObjects (pool w1) = []")
    case True
    then show ?thesis using Inr inv1 by (simp add: acquireObject_def)
  next
    case False
    show ?thesis
    proof (cases "ctor args")
      case None
      then show ?thesis using Inr inv1 False by (simp add: acquireObject_def)
    next
      case (Some v)
      then show ?thesis using Inr False pool_inv_pop [OF inv1 False]
        by (simp add: acquireObject_def Let_def)
    qed
  qed
qed

lemma pool_inv_release:
  assumes "pool_inv sz w"
  shows "pool_inv sz (release object w)"
proof (cases "object \<in> set (live w)")
  case True
  then have "add_mset object (mset (remove1 object (live w))) = mset (live w)"
    by simp
  then have "mset ((m_freeObjects (pool w) @ [object]) @ remove1 object (live w)) =
      mset (m_freeObjects (pool w) @ live w)"
    by (simp del: mset_remove1)
  then show ?thesis using assms True
    by (simp add: release_def deleter_def pool_inv_def del: mset_append mset_remove1)
next
  case False
  then show ?thesis using assms by (simp add: release_def)
qed

lemma pool_inv_exec:
  assumes "pool_inv sz w" and "0 < sz" and "sound_op sz w x" and "exec sz ctor w x = Some w'"
  shows "pool_inv sz w'"
proof (cases x)
  case (Acquire answer args)
  with assms(4) have "exec sz ctor w (Acquire answer args) = Some w'"
    by simp
  then have "w' = snd (acquireObject sz ctor answer args w)"
    by (rule exec_Acquire)
  then show ?thesis using pool_inv_acquireObject [OF assms(1,2)] assms(3) Acquire by simp
next
  case (Release object)
  then show ?thesis using assms pool_inv_release by auto
qed

lemma pool_inv_run:
  "pool_inv sz w \<Longrightarrow> 0 < sz \<Longrightarrow> sound_run sz ctor w xs \<Longrightarrow>
   \<forall>w' \<in> set (run sz ctor w xs). pool_inv sz w'"
proof (induction xs arbitrary: w)
  case Nil
  then show ?case by simp
next
  case (Cons x xs)
  show ?case
  proof (cases "exec sz ctor w x")
    case None
    then show ?thesis using Cons.prems by simp
  next
    case (Some w1)
    then have "pool_inv sz w1" using Cons.prems pool_inv_exec by fastforce
    moreover have "sound_run sz ctor w1 xs" using Cons.prems Some by simp
    ultimately show ?thesis using Cons.IH [of w1] Cons.prems Some by simp
  qed
qed

lemma pool_inv_init: "pool_inv sz init"
  by (simp add: pool_inv_def init_def ObjectPool_default_def capacities_def slots_def)

text \<open>
  With an allocator that keeps its contract no call runs into undefined behaviour: every
  operation of the sequence has a next state.
\<close>

lemma pool_inv_exec_defined:
  assumes inv: "pool_inv sz w" and sz: "0 < sz" and sound: "sound_op sz w x"
  shows "\<exists>w'. exec sz ctor w x = Some w'"
proof (cases x)
  case (Release object)
  then show ?thesis by simp
next
  case (Acquire answer args)
  have "fst (acquireObject sz ctor answer args w) \<noteq> Inl UndefinedBehaviour"
  proof (cases "if m_freeObjects (pool w) = [] then addChunk sz answer w else Inr w")
    case (Inl e)
    then have "e = BadAlloc" by (auto simp: addChunk_Inl split: if_splits)
    then show ?thesis using Inl by (simp add: acquireObject_def)
  next
    case (Inr w1)
    have "m_freeObjects (pool w1) \<noteq> []"
    proof (cases "m_freeObjects (pool w) = []")
      case False
      then show ?thesis using Inr by simp
    next
      case True
      have "0 < unat (m_newChunkSize (pool w))"
        using inv by (simp add: pool_inv_def ms_initialChunkSize_def)
      then have "iota sz first (unat (m_newChunkSize (pool w))) \<noteq> []" for first
        by (simp add: iota_def)
      then show ?thesis using Inr True
        by (auto simp: addChunk_def Let_def split: option.splits)
    qed
    then show ?thesis using Inr
      by (cases "ctor args") (simp_all add: acquireObject_def Let_def)
  qed
  then show ?thesis using Acquire
    by (auto split: prod.splits sum.splits error.splits)
qed

lemma sound_run_length:
  "pool_inv sz w \<Longrightarrow> 0 < sz \<Longrightarrow> sound_run sz ctor w xs \<Longrightarrow>
   length (run sz ctor w xs) = Suc (length xs)"
proof (induction xs arbitrary: w)
  case Nil
  then show ?case by simp
next
  case (Cons x xs)
  from Cons.prems have "sound_op sz w x" by simp
  then obtain w1 where w1: "exec sz ctor w x = Some w1"
    using pool_inv_exec_defined [OF Cons.prems(1,2)] by blast
  then have "pool_inv sz w1" using Cons.prems pool_inv_exec by fastforce
  moreover have "sound_run sz ctor w1 xs" using Cons.prems w1 by simp
  ultimately show ?case using Cons.IH [of w1] Cons.prems(2) w1 by simp
qed

section \<open>The sample runs, evaluated\<close>

lemma iota_5:
  "iota sz first 5 = [first, first + sz, first + 2 * sz, first + 3 * sz, first + 4 * sz]"
  by (simp add: iota_def upt_rec)

lemma iota_10:
  "iota sz first 10 =
     [first, first + sz, first + 2 * sz, first + 3 * sz, first + 4 * sz, first + 5 * sz,
      first + 6 * sz, first + 7 * sz, first + 8 * sz, first + 9 * sz]"
  by (simp add: iota_def upt_rec)

lemmas run_defs = init_def ObjectPool_default_def ms_initialChunkSize_def acquireObject_def
  addChunk_def iota_5 iota_10 release_def deleter_def fresh_block_def Let_def

lemma demo_sound: "sound_run 8 Some (init :: string world) demo_ops"
  by (simp add: demo_ops_def run_defs)

lemma demo_final_eq:
  "\<exists>m. demo_final =
     \<lparr>pool = \<lparr>m_pool = [4096, 8192],
              m_freeObjects = [8192, 8200, 8208, 8216, 8224, 8232, 8240, 8248, 8256, 4096],
              m_newChunkSize = 20\<rparr>,
      blocks = [(4096, 5), (8192, 10)], mem = m, live = [4128, 4120, 4112, 4104, 8264]\<rparr>"
  by (simp add: demo_final_def demo_ops_def run_defs)

lemma demo_final_pool:
  "pool demo_final =
     \<lparr>m_pool = [4096, 8192],
      m_freeObjects = [8192, 8200, 8208, 8216, 8224, 8232, 8240, 8248, 8256, 4096],
      m_newChunkSize = 20\<rparr>"
  using demo_final_eq world_fields by blast

lemma demo_final_blocks: "blocks demo_final = [(4096, 5), (8192, 10)]"
  using demo_final_eq world_fields by blast

lemma demo_final_live: "live demo_final = [4128, 4120, 4112, 4104, 8264]"
  using demo_final_eq world_fields by blast

lemma demo_final_mem: "demo_final \<in> set (run 8 Some init demo_ops)"
  unfolding demo_final_def by (rule run_last_mem)

lemma cycle_sound: "sound_run 8 Some (init :: string world) cycle_ops"
  by (simp add: cycle_ops_def run_defs)

lemma cycled_eq:
  "\<exists>m. cycled =
     \<lparr>pool = \<lparr>m_pool = [4096], m_freeObjects = [4096, 4104, 4112, 4120, 4128],
              m_newChunkSize = 10\<rparr>,
      blocks = [(4096, 5)], mem = m, live = []\<rparr>"
  by (simp add: cycled_def cycle_ops_def run_defs)

lemma cycled_pool:
  "pool cycled =
     \<lparr>m_pool = [4096], m_freeObjects = [4096, 4104, 4112, 4120, 4128], m_newChunkSize = 10\<rparr>"
  using cycled_eq world_fields by blast

lemma cycled_blocks: "blocks cycled = [(4096, 5)]"
  using cycled_eq world_fields by blast

lemma cycled_live: "live cycled = []"
  using cycled_eq world_fields by blast

lemma cycled_mem: "cycled \<in> set (run 8 Some init cycle_ops)"
  unfolding cycled_def by (rule run_last_mem)

lemma reused_eq:
  "\<exists>m. reused =
     \<lparr>pool = \<lparr>m_pool = [8192],
              m_freeObjects = [8192, 8200, 8208, 8216, 8224, 8232, 8240, 8248, 8256, 8264],
              m_newChunkSize = 20\<rparr>,
      blocks = [(4096, 5), (8192, 10)], mem = m, live = []\<rparr>"
  by (simp add: reused_def cycled_def cycle_ops_def move_pool_def run_defs)

lemma reused_pool:
  "pool reused =
     \<lparr>m_pool = [8192],
      m_freeObjects = [8192, 8200, 8208, 8216, 8224, 8232, 8240, 8248, 8256, 8264],
      m_newChunkSize = 20\<rparr>"
  using reused_eq world_fields by blast

lemma reused_blocks: "blocks reused = [(4096, 5), (8192, 10)]"
  using reused_eq world_fields by blast

lemma reused_live: "live reused = []"
  using reused_eq world_fields by blast

lemma grown_eq:
  "grown =
     \<lparr>pool = \<lparr>m_pool = [4096], m_freeObjects = [4096, 4104, 4112, 4120, 4128],
              m_newChunkSize = 10\<rparr>,
      blocks = [(4096, 5)], mem = Map.empty, live = []\<rparr>"
  by (simp add: grown_def picky_ctor_def run_defs)

theorem capacity_conservation_witness:
  "demo_final \<in> set (run 8 Some init demo_ops) \<and>
   length (m_freeObjects (pool demo_final)) = 10 \<and> length (live demo_final) = 5 \<and>
   length (m_freeObjects (pool demo_final)) + length (live demo_final) =
     sum_list (map snd (blocks demo_final))"
  using capacity_conservation [of 8 Some demo_ops] demo_final_mem
  by (simp add: demo_final_pool demo_final_live demo_final_blocks)

section \<open>Growth\<close>

text \<open>
  Claim C2. The pool starts with the chunk size 5. With an allocator that keeps its
  contract, in every state of a sequence of operations on a default-constructed pool the
  number of growth events so far is the number of chunks, the growth event number
  \<open>k + 1\<close> allocated a chunk of \<open>5 * 2 ^ k\<close> slots, the stored size of the next chunk is
  \<open>5 * 2 ^ n\<close> after \<open>n\<close> growth events (each event doubles it, and it never wraps around),
  and the capacity of all chunks together is \<open>5 * (2 ^ n - 1)\<close>.
\<close>

theorem growth_doubling:
  assumes "0 < sz" and "sound_run sz ctor init xs" and "w \<in> set (run sz ctor init xs)"
  shows "unat ms_initialChunkSize = 5 \<and>
         length (m_pool (pool w)) = length (blocks w) \<and>
         (\<forall>k < length (blocks w). snd (blocks w ! k) = 5 * 2 ^ k) \<and>
         unat (m_newChunkSize (pool w)) = 5 * 2 ^ length (blocks w) \<and>
         sum_list (map snd (blocks w)) = 5 * (2 ^ length (blocks w) - 1)"
proof -
  have inv: "pool_inv sz w"
    using pool_inv_run [OF pool_inv_init assms(1,2)] assms(3) by blast
  define n where "n = length (blocks w)"
  have len: "length (m_pool (pool w)) = n"
    using inv by (metis pool_inv_def length_map n_def)
  have caps: "map snd (blocks w) = capacities n"
    using inv len by (simp add: pool_inv_def)
  have each: "snd (blocks w ! k) = 5 * 2 ^ k" if "k < n" for k
  proof -
    have "snd (blocks w ! k) = map snd (blocks w) ! k"
      using that by (simp add: n_def)
    also have "\<dots> = 5 * 2 ^ k"
      using that by (simp add: caps capacities_def ms_initialChunkSize_def)
    finally show ?thesis .
  qed
  have size: "unat (m_newChunkSize (pool w)) = 5 * 2 ^ n"
    using inv len by (simp add: pool_inv_def ms_initialChunkSize_def)
  have "sum_list (map snd (blocks w)) + 5 = 5 * 2 ^ n"
    using sum_capacities [of n] by (simp add: caps ms_initialChunkSize_def)
  then have total: "sum_list (map snd (blocks w)) = 5 * (2 ^ n - 1)"
    by (simp add: diff_mult_distrib2)
  show ?thesis using len each size total by (simp add: n_def ms_initialChunkSize_def)
qed

theorem growth_doubling_witness:
  "0 < (8::nat) \<and> sound_run 8 Some (init :: string world) demo_ops \<and>
   demo_final \<in> set (run 8 Some init demo_ops) \<and>
   length (blocks demo_final) = 2 \<and>
   snd (blocks demo_final ! 0) = 5 \<and> snd (blocks demo_final ! 1) = 10 \<and>
   unat (m_newChunkSize (pool demo_final)) = 20 \<and>
   sum_list (map snd (blocks demo_final)) = 15"
  using growth_doubling [of 8 Some demo_ops demo_final] demo_sound demo_final_mem
  by (simp add: demo_final_blocks demo_final_pool)

section \<open>No two live objects share an address\<close>



section \<open>Recycling\<close>

lemma acquireObject_takes_last:
  assumes "acquireObject sz ctor answer args w = (Inr p, w')"
  shows "if m_freeObjects (pool w) = []
         then \<exists>first. answer = Some first \<and>
                iota sz first (unat (m_newChunkSize (pool w))) = m_freeObjects (pool w') @ [p]
         else m_freeObjects (pool w) = m_freeObjects (pool w') @ [p]"
proof (cases "m_freeObjects (pool w) = []")
  case True
  show ?thesis
  proof (cases answer)
    case None
    then show ?thesis using assms True by (simp add: acquireObject_def addChunk_def)
  next
    case (Some first)
    then show ?thesis using assms True
      by (auto simp: acquireObject_def addChunk_def Let_def split: if_splits option.splits)
  qed
next
  case False
  then show ?thesis using assms
    by (auto simp: acquireObject_def Let_def split: option.splits)
qed

text \<open>
  Claim C3. In every world, when a live handle is released and an object is acquired
  next, with a constructor that does not throw, the call returns the address that was just
  released; the allocator is not asked, and the pool (chunk sequence, free list, next
  chunk size) and the allocator's ledger are as before the release. More generally, every
  successful call returns the last address of the free list and removes it: of the free
  list it found or, when that was empty, of the slots of the chunk it has just added.
\<close>

theorem recycling_round_trip:
  "(object \<in> set (live w) \<and> ctor args = Some v \<longrightarrow>
      fst (acquireObject sz ctor answer args (release object w)) = Inr object \<and>
      pool (snd (acquireObject sz ctor answer args (release object w))) = pool w \<and>
      blocks (snd (acquireObject sz ctor answer args (release object w))) = blocks w) \<and>
   (acquireObject sz ctor answer args w = (Inr p, w') \<longrightarrow>
      (if m_freeObjects (pool w) = []
       then \<exists>first. answer = Some first \<and>
              iota sz first (unat (m_newChunkSize (pool w))) = m_freeObjects (pool w') @ [p]
       else m_freeObjects (pool w) = m_freeObjects (pool w') @ [p]))"
proof (intro conjI impI)
  assume a: "object \<in> set (live w) \<and> ctor args = Some v"
  let ?w1 = "release object w"
  have free1: "m_freeObjects (pool ?w1) = m_freeObjects (pool w) @ [object]"
    using a by (simp add: release_def deleter_def)
  have rest1: "m_pool (pool ?w1) = m_pool (pool w)"
    "m_newChunkSize (pool ?w1) = m_newChunkSize (pool w)" "blocks ?w1 = blocks w"
    using a by (simp_all add: release_def deleter_def)
  note acq = acquireObject_nonempty [of ?w1 "m_freeObjects (pool w)" object ctor args v sz answer]
  show "fst (acquireObject sz ctor answer args ?w1) = Inr object"
    using a acq free1 by simp
  show "pool (snd (acquireObject sz ctor answer args ?w1)) = pool w"
    using a acq rest1 free1 by (simp add: release_def deleter_def)
  show "blocks (snd (acquireObject sz ctor answer args ?w1)) = blocks w"
    using a acq rest1 free1 by simp
next
  assume "acquireObject sz ctor answer args w = (Inr p, w')"
  then show "if m_freeObjects (pool w) = []
       then \<exists>first. answer = Some first \<and>
              iota sz first (unat (m_newChunkSize (pool w))) = m_freeObjects (pool w') @ [p]
       else m_freeObjects (pool w) = m_freeObjects (pool w') @ [p]"
    by (rule acquireObject_takes_last)
qed

theorem recycling_round_trip_witness:
  "8264 \<in> set (live demo_final) \<and> Some ''g'' = Some ''g'' \<and>
   fst (acquireObject 8 Some None ''g'' (release 8264 demo_final)) = Inr 8264 \<and>
   pool (snd (acquireObject 8 Some None ''g'' (release 8264 demo_final))) = pool demo_final \<and>
   blocks (snd (acquireObject 8 Some None ''g'' (release 8264 demo_final))) = blocks demo_final"
  using recycling_round_trip [where object = 8264 and w = demo_final and ctor = Some
      and args = "''g''" and v = "''g''" and sz = 8 and answer = None]
  by (simp add: demo_final_live)

section \<open>A constructor that throws\<close>

text \<open>
  Claim C4. When the constructor of \<open>T\<close> throws, \<^verbatim>\<open>acquireObject\<close> hands the exception to
  its caller. With a free list that was not empty the world is exactly as before the call.
  In every case the only change is the chunk that the call may have added: no handle was
  issued, no object is constructed, the slot that was about to be used is still the last
  one of the free list, and the next call whose constructor succeeds returns that slot.
\<close>

theorem ctor_failure_atomic:
  assumes "ctor args = None"
  shows "(m_freeObjects (pool w) \<noteq> [] \<longrightarrow>
            acquireObject sz ctor answer args w = (Inl CtorThrew, w)) \<and>
         (acquireObject sz ctor answer args w = (Inl CtorThrew, w') \<longrightarrow>
            (if m_freeObjects (pool w) = [] then addChunk sz answer w = Inr w' else w' = w) \<and>
            live w' = live w \<and> mem w' = mem w \<and>
            m_freeObjects (pool w') \<noteq> [] \<and>
            (retry_ctor retry_args = Some v \<longrightarrow>
               fst (acquireObject sz retry_ctor retry_answer retry_args w') =
                 Inr (last (m_freeObjects (pool w')))))"
proof (intro conjI impI)
  assume "m_freeObjects (pool w) \<noteq> []"
  then show "acquireObject sz ctor answer args w = (Inl CtorThrew, w)"
    using assms by (simp add: acquireObject_def Let_def)
next
  assume r: "acquireObject sz ctor answer args w = (Inl CtorThrew, w')"
  show g: "if m_freeObjects (pool w) = [] then addChunk sz answer w = Inr w' else w' = w"
    using r assms
    by (auto simp: acquireObject_def addChunk_Inl Let_def split: sum.splits if_splits)
  show "live w' = live w" and "mem w' = mem w"
    using g by (auto simp: addChunk_def Let_def split: if_splits option.splits)
  show ne: "m_freeObjects (pool w') \<noteq> []"
    using r assms
    by (auto simp: acquireObject_def addChunk_Inl Let_def split: sum.splits if_splits)
  assume "retry_ctor retry_args = Some v"
  then show "fst (acquireObject sz retry_ctor retry_answer retry_args w') =
      Inr (last (m_freeObjects (pool w')))"
    using ne by (simp add: acquireObject_def Let_def)
qed

theorem ctor_failure_atomic_witness:
  "picky_ctor [] = None \<and>
   acquireObject 8 picky_ctor (Some 4096) [] init = (Inl CtorThrew, grown) \<and>
   live grown = [] \<and> mem grown = Map.empty \<and>
   m_freeObjects (pool grown) = [4096, 4104, 4112, 4120, 4128] \<and>
   picky_ctor ''a'' = Some ''a'' \<and>
   fst (acquireObject 8 picky_ctor None ''a'' grown) = Inr 4128"
proof -
  have bad: "picky_ctor [] = None" and good: "picky_ctor ''a'' = Some ''a''"
    by (simp_all add: picky_ctor_def)
  have "fst (acquireObject 8 picky_ctor (Some 4096) [] (init :: string world)) = Inl CtorThrew"
    by (simp add: picky_ctor_def run_defs)
  then have thrown: "acquireObject 8 picky_ctor (Some 4096) [] (init :: string world) =
      (Inl CtorThrew, grown)"
    by (simp add: grown_def prod_eq_iff)
  note t = ctor_failure_atomic [where ctor = picky_ctor and args = "[]" and w = init
      and sz = 8 and answer = "Some 4096" and w' = grown and retry_ctor = picky_ctor
      and retry_args = "''a''" and v = "''a''" and retry_answer = None]
  from t bad thrown good
  have "fst (acquireObject 8 picky_ctor None ''a'' grown) =
      Inr (last (m_freeObjects (pool grown)))"
    by simp
  moreover have "live grown = []" and "mem grown = Map.empty"
    and "m_freeObjects (pool grown) = [4096, 4104, 4112, 4120, 4128]"
    by (simp_all add: grown_eq)
  ultimately show ?thesis using bad good thrown by simp
qed

section \<open>The order of the slots of a new chunk\<close>

lemma acquire_each_nonempty:
  "length reqs \<le> length (m_freeObjects (pool w)) \<Longrightarrow>
   list_all (\<lambda>(answer, args). ctor args \<noteq> None) reqs \<Longrightarrow>
   acquire_each sz ctor w reqs = map Inr (take (length reqs) (rev (m_freeObjects (pool w))))"
proof (induction reqs arbitrary: w)
  case Nil
  then show ?case by simp
next
  case (Cons r reqs)
  obtain answer args where r: "r = (answer, args)" by (cases r)
  from Cons.prems(2) r obtain v where v: "ctor args = Some v" by auto
  from Cons.prems(1) have "m_freeObjects (pool w) \<noteq> []" by auto
  then obtain ys y where ys: "m_freeObjects (pool w) = ys @ [y]"
    by (metis append_butlast_last_id)
  let ?w' = "w\<lparr>mem := (mem w)(y \<mapsto> v), pool := (pool w)\<lparr>m_freeObjects := ys\<rparr>,
               live := live w @ [y]\<rparr>"
  have "acquire_each sz ctor ?w' reqs =
      map Inr (take (length reqs) (rev (m_freeObjects (pool ?w'))))"
    using Cons.prems ys by (intro Cons.IH) simp_all
  then show ?case
    using acquireObject_nonempty [of w ys y ctor args v sz answer] ys v by (simp add: r)
qed

lemma rev_iota: "rev (iota sz first n) = map (\<lambda>j. first + (n - 1 - j) * sz) [0..<n]"
  by (rule nth_equalityI) (simp_all add: iota_def rev_nth)

text \<open>
  Claim C10. A growth event appends the addresses of the new chunk's slots to the free
  list in ascending order. When the free list is empty and the next chunk has \<open>n\<close> slots,
  a run of at most \<open>n\<close> consecutive acquisitions whose constructors succeed, the first of
  which makes the pool grow by a chunk at \<open>first\<close>, returns the slot with the highest
  address first, \<open>first + (n - 1) * sz\<close>, and then the slots below it one by one, in
  strictly descending order of address.
\<close>

theorem descending_after_growth:
  assumes empty: "m_freeObjects (pool w) = []"
    and n: "n = unat (m_newChunkSize (pool w))"
    and len: "length rest < n"
    and ok: "list_all (\<lambda>(answer, args). ctor args \<noteq> None) ((Some first, args) # rest)"
  shows "(\<exists>w1. addChunk sz (Some first) w = Inr w1 \<and>
               m_freeObjects (pool w1) = map (\<lambda>i. first + i * sz) [0..<n]) \<and>
         acquire_each sz ctor w ((Some first, args) # rest) =
           map (\<lambda>j. Inr (first + (n - 1 - j) * sz)) [0..<Suc (length rest)] \<and>
         (0 < sz \<longrightarrow>
            sorted_wrt (>) (map (\<lambda>j. first + (n - 1 - j) * sz) [0..<Suc (length rest)]))"
proof (intro conjI impI)
  obtain w1 where w1: "addChunk sz (Some first) w = Inr w1"
    by (simp add: addChunk_def Let_def)
  have free1: "m_freeObjects (pool w1) = iota sz first n"
    using w1 empty n by (auto simp: addChunk_def Let_def)
  then show "\<exists>w1. addChunk sz (Some first) w = Inr w1 \<and>
               m_freeObjects (pool w1) = map (\<lambda>i. first + i * sz) [0..<n]"
    using w1 by (simp add: iota_def)
  have ne: "m_freeObjects (pool w1) \<noteq> []"
    using len by (auto simp: free1 iota_def)
  have "acquire_each sz ctor w ((Some first, args) # rest) =
      acquire_each sz ctor w1 ((Some first, args) # rest)"
    using acquireObject_growth [OF empty w1 ne, of ctor args "Some first"] by simp
  also have "\<dots> =
      map Inr (take (length ((Some first, args) # rest)) (rev (m_freeObjects (pool w1))))"
    using len ok by (intro acquire_each_nonempty) (simp_all add: free1)
  also have "\<dots> = map (\<lambda>j. Inr (first + (n - 1 - j) * sz)) [0..<Suc (length rest)]"
    using len by (simp add: free1 rev_iota take_map del: upt_Suc)
  finally show "acquire_each sz ctor w ((Some first, args) # rest) =
      map (\<lambda>j. Inr (first + (n - 1 - j) * sz)) [0..<Suc (length rest)]" .
next
  assume sz: "0 < sz"
  have "n - 1 - j < n - 1 - i" if "i < j" and "j < Suc (length rest)" for i j
    using that len by linarith
  then have "first + (n - 1 - j) * sz < first + (n - 1 - i) * sz"
    if "i < j" and "j < Suc (length rest)" for i j
    using that sz by simp
  then show "sorted_wrt (>) (map (\<lambda>j. first + (n - 1 - j) * sz) [0..<Suc (length rest)])"
    by (simp add: sorted_wrt_iff_nth_less del: upt_Suc)
qed

theorem descending_after_growth_witness:
  "m_freeObjects (pool (init :: string world)) = [] \<and>
   5 = unat (m_newChunkSize (pool (init :: string world))) \<and>
   length [(None :: ptr option, ''b''), (None, ''c'')] < (5::nat) \<and>
   list_all (\<lambda>(answer :: ptr option, args :: string). Some args \<noteq> None)
     [(Some 4096, ''a''), (None, ''b''), (None, ''c'')] \<and>
   acquire_each 8 Some (init :: string world) [(Some 4096, ''a''), (None, ''b''), (None, ''c'')] =
     [Inr 4128, Inr 4120, Inr 4112] \<and>
   (0::nat) < 8 \<and> sorted_wrt (>) [4128, 4120, 4112 :: nat]"
  using descending_after_growth [where w = "init :: string world" and n = 5 and ctor = Some
      and rest = "[(None, ''b''), (None, ''c'')]" and first = 4096 and args = "''a''" and sz = 8]
  by (simp add: init_def ObjectPool_default_def ms_initialChunkSize_def upt_rec)

section \<open>Failure of the allocator\<close>

text \<open>
  Claim C5. When the free list is empty and the allocator cannot provide the chunk,
  \<^verbatim>\<open>acquireObject\<close> hands \<^verbatim>\<open>std::bad_alloc\<close> to its caller at once and leaves the whole world
  as it was: the chunk sequence, the free list and the next chunk size, and with them the
  allocator's ledger, the constructed objects and the live handles.
\<close>

theorem acquireObject_bad_alloc:
  "m_freeObjects (pool w) = [] \<Longrightarrow> acquireObject sz ctor None args w = (Inl BadAlloc, w)"
  by (simp add: acquireObject_def addChunk_def)

theorem acquireObject_bad_alloc_witness:
  "m_freeObjects (pool (init :: string world)) = [] \<and>
   acquireObject 8 Some None ''x'' (init :: string world) = (Inl BadAlloc, init)"
  using acquireObject_bad_alloc [of "init :: string world" 8 Some "''x''"]
  by (simp add: init_def ObjectPool_default_def)

section \<open>Destruction\<close>

text \<open>Below \<open>2 ^ 53\<close> the conversion to \<^verbatim>\<open>double\<close> is exact; above, it rounds.\<close>

lemma to_double_exact: "x < 2 ^ 53 \<Longrightarrow> to_double x = x"
  by (simp add: to_double_def)

lemma to_double_tie_to_even:
  "to_double (2 ^ 53 + 1) = 2 ^ 53 \<and> to_double (2 ^ 53 + 3) = 2 ^ 53 + 4"
  by (simp add: to_double_def bitlen.simps Let_def)

text \<open>
  With 53 chunks the assertion no longer tells all slots free from one slot missing: the
  two counts are the same \<^verbatim>\<open>double\<close>.
\<close>

lemma dtor_assert_inexact:
  "dtor_assert \<lparr>m_pool = replicate 53 c, m_freeObjects = replicate (5 * (2 ^ 53 - 1) - 1) a,
                m_newChunkSize = s\<rparr>"
  by (simp add: dtor_assert_def ms_initialChunkSize_def to_double_def bitlen.simps Let_def)

lemma dealloc_loop_blocks:
  "map snd bs = map (\<lambda>k. unat c * 2 ^ k) [0..<length bs] \<Longrightarrow>
   unat c * 2 ^ length bs < 2 ^ 64 \<Longrightarrow>
   dealloc_loop (map fst bs) c (bs @ rest, calls) = Inr (rest, calls @ bs)"
proof (induction bs arbitrary: c calls)
  case Nil
  then show ?case by simp
next
  case (Cons x bs)
  obtain b m where x: "x = (b, m)" by (cases x)
  have "unat c * 2 \<le> unat c * 2 ^ Suc (length bs)"
    by simp
  also have "\<dots> < 2 ^ 64"
    using Cons.prems(2) by simp
  finally have c2: "unat (c * 2) = unat c * 2"
    by (simp add: unat_word_ariths)
  have "map snd (x # bs) = unat c # map (\<lambda>k. unat c * 2 ^ Suc k) [0..<length bs]"
    using Cons.prems(1) by (simp add: upt_conv_Cons map_Suc_upt [symmetric] del: upt_Suc)
  then have m: "m = unat c"
    and rest: "map snd bs = map (\<lambda>k. unat (c * 2) * 2 ^ k) [0..<length bs]"
    by (simp_all add: x c2 mult.assoc)
  have "unat (c * 2) * 2 ^ length bs < 2 ^ 64"
    using Cons.prems(2) by (simp add: c2 mult.assoc)
  from Cons.IH [OF rest this, of "calls @ [(b, unat c)]"] show ?case
    by (simp add: x m deallocate_def)
qed

text \<open>
  The destructor of a pool that was default-constructed, never moved from, and used
  through \<^verbatim>\<open>acquireObject\<close> and its handles, with an allocator that keeps its contract and
  with at most 50 chunks, so that every number of the assertion is a \<^verbatim>\<open>double\<close>. The
  assertion compares the number of free slots with the capacity of all chunks. With no
  live handle the destructor, in either build, calls \<^verbatim>\<open>deallocate\<close> once for every chunk,
  in allocation order and with the capacity the chunk was allocated with (the calls it
  has made are the allocator's ledger, entry by entry), and no block is left allocated.
  With a live handle the assertion fails; with \<^verbatim>\<open>NDEBUG\<close> nothing is checked, and the
  chunks are given back under the live objects.
\<close>

lemma destruction_unmoved:
  assumes "0 < sz" and "sound_run sz ctor init xs" and "w \<in> set (run sz ctor init xs)"
    and "length (blocks w) \<le> 50"
  shows "(dtor_assert (pool w) \<longleftrightarrow>
            length (m_freeObjects (pool w)) = sum_list (map snd (blocks w))) \<and>
         (live w = [] \<longrightarrow> ObjectPool_dtor ndebug w = Inr ([], blocks w)) \<and>
         (live w \<noteq> [] \<longrightarrow>
            ObjectPool_dtor False w = Inl AssertionFailed \<and>
            ObjectPool_dtor True w = Inr ([], blocks w))"
proof -
  have inv: "pool_inv sz w"
    using pool_inv_run [OF pool_inv_init assms(1,2)] assms(3) by blast
  have cons: "conserved w"
    using conserved_run [OF conserved_init] assms(3) by blast
  define n where "n = length (blocks w)"
  have len: "length (m_pool (pool w)) = n"
    using inv by (metis pool_inv_def length_map n_def)
  have caps: "map snd (blocks w) = capacities n"
    using inv len by (simp add: pool_inv_def)
  have "sum_list (map snd (blocks w)) + unat ms_initialChunkSize =
      unat ms_initialChunkSize * 2 ^ n"
    using sum_capacities [of n] by (simp add: caps)
  then have total: "sum_list (map snd (blocks w)) = 5 * (2 ^ n - 1)"
    by (simp add: diff_mult_distrib2 ms_initialChunkSize_def)
  have "(2::nat) ^ n \<le> 2 ^ 50"
    using assms(4) by (intro power_increasing) (simp_all add: n_def)
  then have pow_small: "(2::nat) ^ n - 1 < 2 ^ 53" and total_small: "5 * ((2::nat) ^ n - 1) < 2 ^ 53"
    by simp_all
  have "length (m_freeObjects (pool w)) \<le> sum_list (map snd (blocks w))"
    using cons by (simp add: conserved_def)
  then have free_small: "length (m_freeObjects (pool w)) < 2 ^ 53"
    using total total_small by simp
  have check: "dtor_assert (pool w) \<longleftrightarrow>
      length (m_freeObjects (pool w)) = sum_list (map snd (blocks w))"
    using to_double_exact [OF pow_small] to_double_exact [OF total_small]
      to_double_exact [OF free_small]
    by (simp add: dtor_assert_def len total ms_initialChunkSize_def to_double_exact)
  have check_live: "dtor_assert (pool w) \<longleftrightarrow> live w = []"
    using cons by (auto simp: check conserved_def)
  have "unat ms_initialChunkSize * 2 ^ n = unat (m_newChunkSize (pool w))"
    using inv len by (simp add: pool_inv_def)
  also have "\<dots> < 2 ^ 64"
    using unsigned_less [of "m_newChunkSize (pool w)", where ?'a = nat] by simp
  finally have small: "unat ms_initialChunkSize * 2 ^ length (blocks w) < 2 ^ 64"
    by (simp add: n_def)
  have caps': "map snd (blocks w) =
      map (\<lambda>k. unat ms_initialChunkSize * 2 ^ k) [0..<length (blocks w)]"
    by (simp add: caps capacities_def n_def)
  have fst: "map fst (blocks w) = m_pool (pool w)"
    using inv by (simp add: pool_inv_def)
  from dealloc_loop_blocks [OF caps' small, of "[]" "[]"]
  have loop: "dealloc_loop (m_pool (pool w)) ms_initialChunkSize (blocks w, []) =
      Inr ([], blocks w)"
    by (simp add: fst)
  show ?thesis
    using check check_live loop by (simp add: ObjectPool_dtor_def)
qed

text \<open>
  Two pools of the sample runs: one with no live handle, whose chunk of five slots is given
  back, and one with five live handles.
\<close>

lemma destruction_unmoved_example:
  "ObjectPool_dtor False cycled = Inr ([], [(4096, 5)]) \<and>
   ObjectPool_dtor True cycled = Inr ([], [(4096, 5)]) \<and>
   ObjectPool_dtor False demo_final = Inl AssertionFailed \<and>
   ObjectPool_dtor True demo_final = Inr ([], [(4096, 5), (8192, 10)])"
  using destruction_unmoved [of 8 Some cycle_ops cycled False] cycle_sound cycled_mem
    destruction_unmoved [of 8 Some cycle_ops cycled True]
    destruction_unmoved [of 8 Some demo_ops demo_final] demo_sound demo_final_mem
  by (simp add: cycled_live cycled_blocks demo_final_live demo_final_blocks)

text \<open>
  Claim C8. The destructor does not give back every chunk with the capacity it was
  allocated with, and its check does not pass for every pool without live handles: it
  takes the first chunk of a pool to have the initial size 5 and every further chunk to
  have twice the size of the one before. A pool that was moved from keeps its next chunk
  size, and the first chunk it allocates afterwards has that size. The pool of \<open>reused\<close>
  was moved from after one growth event and then used once: it has no live handle and one
  chunk, allocated with ten slots, all of them free. Its destructor fails the assertion;
  in a build with \<^verbatim>\<open>NDEBUG\<close> it calls \<^verbatim>\<open>deallocate\<close> for that chunk with the size 5.
\<close>

theorem destruction_after_move_mismatch:
  "live reused = [] \<and> m_pool (pool reused) = [8192] \<and>
   length (m_freeObjects (pool reused)) = 10 \<and> (8192, 10) \<in> set (blocks reused) \<and>
   \<not> dtor_assert (pool reused) \<and>
   ObjectPool_dtor False reused = Inl AssertionFailed \<and>
   deallocate 8192 (unat ms_initialChunkSize) (blocks reused, []) = Inl UndefinedBehaviour \<and>
   ObjectPool_dtor True reused = Inl UndefinedBehaviour"
  by (simp add: reused_live reused_blocks reused_pool ObjectPool_dtor_def dtor_assert_def
      to_double_exact deallocate_def ms_initialChunkSize_def)

section \<open>Moving a pool\<close>

text \<open>
  Claim C6. The defaulted move hands the chunk sequence, the free list and the next chunk
  size to the destination and leaves the source without chunks and without free slots.
  It does not reset the next chunk size of the source: after one growth event the
  moved-from pool keeps the size 10, not the initial size 5. The destructor takes the
  first chunk of every pool to have the initial size. So when the moved-from pool is used
  again and then destroyed with no live handle, its assertion fails, and with the
  assertion compiled out its one chunk of ten slots is given back with the size 5.
\<close>

theorem moved_from_keeps_chunk_size:
  "fst (move_pool (pool cycled)) = pool cycled \<and>
   snd (move_pool (pool cycled)) = \<lparr>m_pool = [], m_freeObjects = [], m_newChunkSize = 10\<rparr> \<and>
   m_newChunkSize (snd (move_pool (pool cycled))) \<noteq> ms_initialChunkSize \<and>
   live reused = [] \<and> blocks reused = [(4096, 5), (8192, 10)] \<and> m_pool (pool reused) = [8192] \<and>
   ObjectPool_dtor False reused = Inl AssertionFailed \<and>
   dealloc_loop (m_pool (pool reused)) ms_initialChunkSize (blocks reused, []) =
     Inl UndefinedBehaviour"
  by (simp add: move_pool_def cycled_pool reused_live reused_blocks reused_pool
      ObjectPool_dtor_def dtor_assert_def to_double_exact deallocate_def
      ms_initialChunkSize_def)

section \<open>Forwarding the arguments\<close>

text \<open>
  Claim C7. For a type constructed from an \<^verbatim>\<open>int\<close> and a \<^verbatim>\<open>std::string\<close>, the call
  \<^verbatim>\<open>acquireObject(42, s)\<close> with a string variable \<open>s\<close> that holds \<^verbatim>\<open>"x"\<close> constructs the
  object in place, at the last free slot, with the fields 42 and \<^verbatim>\<open>"x"\<close>. But the
  arguments are not forwarded without a copy: the parameters are taken by value, and the
  string is copy-constructed into its parameter before the constructor of \<open>T\<close> runs.
\<close>

theorem by_value_parameter_copies:
  "fst (acquireObject_call 8 pair_ctor (Some 4096)
          [(Prvalue, IntArg 42), (Lvalue, StrArg ''x'')] init) =
     [CopyConstructed (StrArg ''x'')] \<and>
   fst (snd (acquireObject_call 8 pair_ctor (Some 4096)
          [(Prvalue, IntArg 42), (Lvalue, StrArg ''x'')] init)) = Inr 4128 \<and>
   mem (snd (snd (acquireObject_call 8 pair_ctor (Some 4096)
          [(Prvalue, IntArg 42), (Lvalue, StrArg ''x'')] init))) 4128 = Some (42, ''x'')"
  by (simp add: acquireObject_call_def run_defs)

end
